theory Spec2Isabelle
  imports Complex_Main
begin

section \<open>Replication dynamics: the simulation engine\<close>

text \<open>
  The repository holds two variants of one function, \<^verbatim>\<open>simulate_replication_dynamics\<close>:
  \<^item> \<^verbatim>\<open>streamlit_app.py\<close> (lines 28 to 87) takes \<^verbatim>\<open>num_periods\<close> and an optional
    \<^verbatim>\<open>payoff_matrix\<close> and returns five series;
  \<^item> \<^verbatim>\<open>replication_dynamics.py\<close> (lines 54 to 100) takes \<^verbatim>\<open>num_periods\<close> only, reads the
    module's \<^verbatim>\<open>payoff_matrix\<close> and returns the first two of these series.

  Both read the module-level list \<^verbatim>\<open>automatons\<close>; the embedding passes the module-level
  names as leading arguments.

  Numbers. The source computes in numpy's float64. The definitions below are written
  over an arbitrary number type \<open>'a\<close> that only has to offer the operations the source
  uses (\<open>0\<close>, \<open>1\<close>, \<open>+\<close>, \<open>-\<close>, \<open>*\<close>, \<open>/\<close>, \<open><\<close>), and every operation stands where the
  source has it, in the source's order. Theorems that need no law of arithmetic are
  proved for every such type. Theorems that need the laws of arithmetic are proved for
  \<^typ>\<open>real\<close>, that is for the algorithm in exact arithmetic; rounding and overflow of
  float64 are outside these theorems. The type \<open>float64\<close> further down carries the
  rounding of each operation; it serves to evaluate the same definitions on a concrete
  input the way the source computes.
\<close>

subsection \<open>Python and numpy primitives\<close>

text \<open>
  \<open>KeyError\<close>: a dictionary lookup of a missing key (the key is kept).
  \<open>IndexError\<close>: an array read out of range. \<open>ValueError\<close>: \<^verbatim>\<open>np.min\<close> or \<^verbatim>\<open>np.argmax\<close> of
  an empty array. \<open>NanResult\<close> is not a Python exception: numpy divides by zero without
  raising and fills the array with \<^verbatim>\<open>nan\<close> or \<^verbatim>\<open>inf\<close>; the embedding has no such values and
  ends the run with this marker instead.
\<close>

datatype py_error = KeyError string | IndexError | ValueError | NanResult

type_synonym 'a payoff_table = "string \<rightharpoonup> (string \<rightharpoonup> 'a)"

text \<open>\<^verbatim>\<open>payoff_matrix[a][b]\<close> on a dict of dicts.\<close>

definition getitem2 :: "'a payoff_table \<Rightarrow> string \<Rightarrow> string \<Rightarrow> py_error + 'a" where
  "getitem2 payoff_matrix a b =
     (case payoff_matrix a of
        None \<Rightarrow> Inl (KeyError a)
      | Some row \<Rightarrow> (case row b of None \<Rightarrow> Inl (KeyError b) | Some v \<Rightarrow> Inr v))"

text \<open>
  \<^verbatim>\<open>payoff_history = defaultdict(list)\<close>: reading a key that was never written gives the
  empty list.
\<close>

definition dd_get :: "(string \<rightharpoonup> 'a list) \<Rightarrow> string \<Rightarrow> 'a list" where
  "dd_get d k = (case d k of None \<Rightarrow> [] | Some xs \<Rightarrow> xs)"

text \<open>
  The integer \<^verbatim>\<open>n_automatons\<close> as a number of the array's type (numpy converts it for
  \<^verbatim>\<open>np.ones(n) / n\<close>).
\<close>

primrec as_float :: "nat \<Rightarrow> 'a::{zero,one,plus}" where
  "as_float 0 = 0"
| "as_float (Suc n) = as_float n + 1"

text \<open>
  \<^verbatim>\<open>np.sum\<close> of a one-dimensional array, as an accumulation from the left, which is
  what numpy does for fewer than eight elements. (It adds eight or more elements in
  blocks; in exact arithmetic the order is immaterial.)
\<close>

definition np_sum :: "'a::{zero,plus} list \<Rightarrow> 'a" where
  "np_sum xs = foldl (+) 0 xs"

definition np_min :: "'a::ord list \<Rightarrow> py_error + 'a" where
  "np_min xs = (case xs of [] \<Rightarrow> Inl ValueError | x # rest \<Rightarrow> Inr (foldl min x rest))"

text \<open>\<^verbatim>\<open>np.argmax\<close>: the index of the first maximal element.\<close>

fun argmax_from :: "'a::ord list \<Rightarrow> nat \<Rightarrow> 'a \<Rightarrow> nat \<Rightarrow> nat" where
  "argmax_from [] i best best_idx = best_idx"
| "argmax_from (x # xs) i best best_idx =
     (if best < x then argmax_from xs (Suc i) x i else argmax_from xs (Suc i) best best_idx)"

definition np_argmax :: "'a::ord list \<Rightarrow> py_error + nat" where
  "np_argmax xs = (case xs of [] \<Rightarrow> Inl ValueError | x # rest \<Rightarrow> Inr (argmax_from rest 1 x 0))"

subsection \<open>Module-level data\<close>

definition automatons :: "string list" where
  "automatons = [''DOVE'', ''HAWK'', ''GRIM'', ''TIT-FOR-TAT'', ''TAT-FOR-TIT'',
                 ''TWEEDLEDUM'', ''TWEEDLEDEE'', ''TWEETYPIE'']"

text \<open>
  \<^verbatim>\<open>default_payoff_matrix\<close> of \<^verbatim>\<open>streamlit_app.py\<close>; \<^verbatim>\<open>payoff_matrix\<close> of
  \<^verbatim>\<open>replication_dynamics.py\<close> is the same table.
\<close>

definition default_payoff_matrix :: "real payoff_table" where
  "default_payoff_matrix = map_of
   [(''DOVE'', map_of [(''DOVE'', 1), (''HAWK'', - (1/2)), (''GRIM'', 1), (''TIT-FOR-TAT'', 1),
       (''TAT-FOR-TIT'', 1), (''TWEEDLEDUM'', 1), (''TWEEDLEDEE'', 1), (''TWEETYPIE'', - (1/2))]),
    (''HAWK'', map_of [(''DOVE'', 3), (''HAWK'', 0), (''GRIM'', 0), (''TIT-FOR-TAT'', 0),
       (''TAT-FOR-TIT'', 3/2), (''TWEEDLEDUM'', 3/2), (''TWEEDLEDEE'', 3/2), (''TWEETYPIE'', 3)]),
    (''GRIM'', map_of [(''DOVE'', 2), (''HAWK'', 0), (''GRIM'', 2), (''TIT-FOR-TAT'', 2),
       (''TAT-FOR-TIT'', 0), (''TWEEDLEDUM'', 2), (''TWEEDLEDEE'', 2), (''TWEETYPIE'', - 1)]),
    (''TIT-FOR-TAT'', map_of [(''DOVE'', 2), (''HAWK'', 0), (''GRIM'', 2), (''TIT-FOR-TAT'', 2),
       (''TAT-FOR-TIT'', 2/3), (''TWEEDLEDUM'', 2), (''TWEEDLEDEE'', 2), (''TWEETYPIE'', 2)]),
    (''TAT-FOR-TIT'', map_of [(''DOVE'', - (1/2)), (''HAWK'', 3/4), (''GRIM'', 0),
       (''TIT-FOR-TAT'', 2/3), (''TAT-FOR-TIT'', 2), (''TWEEDLEDUM'', 2), (''TWEEDLEDEE'', 2),
       (''TWEETYPIE'', 2)]),
    (''TWEEDLEDUM'', map_of [(''DOVE'', 2), (''HAWK'', 3/4), (''GRIM'', 2), (''TIT-FOR-TAT'', 2),
       (''TAT-FOR-TIT'', 2), (''TWEEDLEDUM'', 2), (''TWEEDLEDEE'', 2), (''TWEETYPIE'', 2)]),
    (''TWEEDLEDEE'', map_of [(''DOVE'', 2), (''HAWK'', 3/4), (''GRIM'', 2), (''TIT-FOR-TAT'', 2),
       (''TAT-FOR-TIT'', 2), (''TWEEDLEDUM'', 2), (''TWEEDLEDEE'', 2), (''TWEETYPIE'', 2)]),
    (''TWEETYPIE'', map_of [(''DOVE'', - (1/2)), (''HAWK'', 3), (''GRIM'', - 1),
       (''TIT-FOR-TAT'', 2), (''TAT-FOR-TIT'', 2), (''TWEEDLEDUM'', 2), (''TWEEDLEDEE'', 2),
       (''TWEETYPIE'', 2)])]"

subsection \<open>One period\<close>

text \<open>
  The inner loop over \<^verbatim>\<open>j, automaton_j\<close> for one \<^verbatim>\<open>automaton_i\<close> (lines 51 to 54): the
  products \<^verbatim>\<open>payoff_matrix[automaton_i][automaton_j] * probabilities[j]\<close> in the order of
  \<^verbatim>\<open>automatons\<close>. The dictionary is read before the array, and the loop stops at the first
  lookup that fails. The second list is \<^verbatim>\<open>probabilities[j:]\<close>.
\<close>

fun pairwise_row ::
  "'a::times payoff_table \<Rightarrow> string \<Rightarrow> string list \<Rightarrow> 'a list \<Rightarrow> py_error + 'a list" where
  "pairwise_row payoff_matrix automaton_i [] ps = Inr []"
| "pairwise_row payoff_matrix automaton_i (automaton_j # rest) ps =
     (case getitem2 payoff_matrix automaton_i automaton_j of
        Inl e \<Rightarrow> Inl e
      | Inr v \<Rightarrow>
          (case ps of
             [] \<Rightarrow> Inl IndexError
           | p # ps' \<Rightarrow>
               (case pairwise_row payoff_matrix automaton_i rest ps' of
                  Inl e \<Rightarrow> Inl e
                | Inr row \<Rightarrow> Inr (v * p # row))))"

text \<open>
  The outer loop over \<^verbatim>\<open>i, automaton_i\<close> (line 50): the table
  \<^verbatim>\<open>pairwise_payoffs_period\<close>, one row per automaton.
\<close>

fun pairwise_rows ::
  "'a::times payoff_table \<Rightarrow> string list \<Rightarrow> string list \<Rightarrow> 'a list \<Rightarrow> py_error + 'a list list"
  where
  "pairwise_rows payoff_matrix [] autos ps = Inr []"
| "pairwise_rows payoff_matrix (automaton_i # rest) autos ps =
     (case pairwise_row payoff_matrix automaton_i autos ps of
        Inl e \<Rightarrow> Inl e
      | Inr row \<Rightarrow>
          (case pairwise_rows payoff_matrix rest autos ps of
             Inl e \<Rightarrow> Inl e
           | Inr rows \<Rightarrow> Inr (row # rows)))"

text \<open>
  \<^verbatim>\<open>payoffs[i]\<close> starts at \<^verbatim>\<open>0.0\<close> and receives each product of row \<open>i\<close> in turn
  (\<^verbatim>\<open>payoffs[i] += pairwise_payoff\<close>).
\<close>

definition payoffs_of :: "'a::{zero,plus} list list \<Rightarrow> 'a list" where
  "payoffs_of rows = map (foldl (+) 0) rows"

text \<open>
  Line 69: \<^verbatim>\<open>[payoff_matrix[automaton][opp] for opp in automatons]\<close>, then \<^verbatim>\<open>np.argmax\<close> and
  the name at that index (line 70).
\<close>

fun row_values :: "'a payoff_table \<Rightarrow> string \<Rightarrow> string list \<Rightarrow> py_error + 'a list" where
  "row_values payoff_matrix automaton [] = Inr []"
| "row_values payoff_matrix automaton (opp # rest) =
     (case getitem2 payoff_matrix automaton opp of
        Inl e \<Rightarrow> Inl e
      | Inr v \<Rightarrow>
          (case row_values payoff_matrix automaton rest of
             Inl e \<Rightarrow> Inl e
           | Inr vs \<Rightarrow> Inr (v # vs)))"

definition best_opponent ::
  "'a::ord payoff_table \<Rightarrow> string list \<Rightarrow> string \<Rightarrow> py_error + string" where
  "best_opponent payoff_matrix autos automaton =
     (case row_values payoff_matrix automaton autos of
        Inl e \<Rightarrow> Inl e
      | Inr vs \<Rightarrow>
          (case np_argmax vs of
             Inl e \<Rightarrow> Inl e
           | Inr best_opponent_idx \<Rightarrow> Inr (autos ! best_opponent_idx)))"

text \<open>
  Lines 67 to 70: the dict \<^verbatim>\<open>period_strategies\<close>, as the list of its items in insertion
  order (the value stored under a name depends on the name only, so a repeated name
  would store the same value again).
\<close>

fun period_strategies ::
  "'a::ord payoff_table \<Rightarrow> string list \<Rightarrow> string list \<Rightarrow> py_error + (string \<times> string) list"
  where
  "period_strategies payoff_matrix [] autos = Inr []"
| "period_strategies payoff_matrix (automaton # rest) autos =
     (case best_opponent payoff_matrix autos automaton of
        Inl e \<Rightarrow> Inl e
      | Inr b \<Rightarrow>
          (case period_strategies payoff_matrix rest autos of
             Inl e \<Rightarrow> Inl e
           | Inr items \<Rightarrow> Inr ((automaton, b) # items)))"

text \<open>
  Lines 74 and 75: \<^verbatim>\<open>payoff_history[automaton].append(payoffs[i])\<close> for each automaton
  (\<^verbatim>\<open>payoffs\<close> has one entry per automaton).
\<close>

fun append_payoffs ::
  "(string \<rightharpoonup> 'a list) \<Rightarrow> string list \<Rightarrow> 'a list \<Rightarrow> (string \<rightharpoonup> 'a list)" where
  "append_payoffs d (automaton # rest) (x # xs) =
     append_payoffs (d(automaton \<mapsto> dd_get d automaton @ [x])) rest xs"
| "append_payoffs d _ _ = d"

text \<open>Lines 77 to 81: the shift of the payoffs.\<close>

definition payoffs_adjusted :: "'a::{zero,one,plus,minus,ord} list \<Rightarrow> 'a \<Rightarrow> 'a list" where
  "payoffs_adjusted payoffs min_payoff =
     (if min_payoff < 0 then map (\<lambda>x. x - min_payoff + 1) payoffs
      else map (\<lambda>x. x + 1) payoffs)"

text \<open>
  Lines 83 and 84: the elementwise product, and the division by its \<^verbatim>\<open>np.sum\<close>.
\<close>

definition reweight ::
  "'a::{zero,plus,times,inverse} list \<Rightarrow> 'a list \<Rightarrow> py_error + 'a list" where
  "reweight probs adj =
     (let weighted = map2 (*) probs adj; total = np_sum weighted
      in if total = 0 then Inl NanResult else Inr (map (\<lambda>x. x / total) weighted))"

text \<open>The variables of \<^verbatim>\<open>streamlit_app.py\<close>'s function that live across periods.\<close>

record 'a sim_state =
  probabilities :: "'a list"
  history :: "'a list list"
  payoff_history :: "string \<rightharpoonup> 'a list"
  strategy_history :: "(string \<times> string) list list"
  payoff_matrices :: "(nat \<times> 'a list) list"
  pairwise_payoffs_history :: "'a list list list"

text \<open>
  The loop body (lines 41 to 85), for the period number \<open>period\<close>. An entry of
  \<^verbatim>\<open>payoff_matrices\<close> is a one-column table labelled \<^verbatim>\<open>t={period}\<close>: the period and the
  column.
\<close>

definition period_step ::
  "string list \<Rightarrow> 'a::{zero,one,plus,minus,times,inverse,ord} payoff_table \<Rightarrow> nat \<Rightarrow>
   'a sim_state \<Rightarrow> py_error + 'a sim_state" where
  "period_step autos payoff_matrix period s =
     (case pairwise_rows payoff_matrix autos autos (probabilities s) of
        Inl e \<Rightarrow> Inl e
      | Inr rows \<Rightarrow>
          (case period_strategies payoff_matrix autos autos of
             Inl e \<Rightarrow> Inl e
           | Inr strategies \<Rightarrow>
               (case np_min (payoffs_of rows) of
                  Inl e \<Rightarrow> Inl e
                | Inr min_payoff \<Rightarrow>
                    (case reweight (probabilities s)
                            (payoffs_adjusted (payoffs_of rows) min_payoff) of
                       Inl e \<Rightarrow> Inl e
                     | Inr probs \<Rightarrow>
                         Inr \<lparr>probabilities = probs,
                              history = history s @ [probs],
                              payoff_history =
                                append_payoffs (payoff_history s) autos (payoffs_of rows),
                              strategy_history = strategy_history s @ [strategies],
                              payoff_matrices =
                                payoff_matrices s @ [(period, payoffs_of rows)],
                              pairwise_payoffs_history =
                                pairwise_payoffs_history s @ [rows]\<rparr>))))"

subsection \<open>The run\<close>

text \<open>Lines 32 to 38: the state before the first period.\<close>

definition initial_state :: "string list \<Rightarrow> 'a::{zero,one,plus,inverse} sim_state" where
  "initial_state autos =
     (let n_automatons = length autos;
          probs = replicate n_automatons (1 / as_float n_automatons)
      in \<lparr>probabilities = probs, history = [probs], payoff_history = Map.empty,
          strategy_history = [], payoff_matrices = [], pairwise_payoffs_history = []\<rparr>)"

text \<open>
  \<^verbatim>\<open>for period in range(num_periods)\<close>: \<open>k\<close> periods are left and the next one has the
  number \<open>period\<close>. An exception ends the run.
\<close>

fun run_periods ::
  "string list \<Rightarrow> 'a::{zero,one,plus,minus,times,inverse,ord} payoff_table \<Rightarrow> nat \<Rightarrow> nat \<Rightarrow>
   'a sim_state \<Rightarrow> py_error + 'a sim_state" where
  "run_periods autos payoff_matrix 0 period s = Inr s"
| "run_periods autos payoff_matrix (Suc k) period s =
     (case period_step autos payoff_matrix period s of
        Inl e \<Rightarrow> Inl e
      | Inr s' \<Rightarrow> run_periods autos payoff_matrix k (Suc period) s')"

text \<open>
  \<^verbatim>\<open>simulate_replication_dynamics(num_periods, payoff_matrix)\<close> of \<^verbatim>\<open>streamlit_app.py\<close>.
  The first two arguments are the module's \<^verbatim>\<open>automatons\<close> and
  \<^verbatim>\<open>default_payoff_matrix\<close>; \<^verbatim>\<open>payoff_matrix=None\<close> is \<open>None\<close>, replaced by the default
  (lines 29 and 30, \<open>chosen_matrix\<close>). \<^verbatim>\<open>range(num_periods)\<close> of an
  integer has \<open>nat num_periods\<close> elements: none when \<^verbatim>\<open>num_periods\<close> is zero or negative.
  The result is the returned tuple (\<^verbatim>\<open>np.array(history)\<close> as the list of its rows).
\<close>

definition chosen_matrix :: "'a payoff_table \<Rightarrow> 'a payoff_table option \<Rightarrow> 'a payoff_table" where
  "chosen_matrix default_matrix payoff_matrix =
     (case payoff_matrix of None \<Rightarrow> default_matrix | Some m \<Rightarrow> m)"

definition simulate_replication_dynamics ::
  "string list \<Rightarrow> 'a::{zero,one,plus,minus,times,inverse,ord} payoff_table \<Rightarrow> int \<Rightarrow>
   'a payoff_table option \<Rightarrow>
   py_error + ('a list list \<times> (string \<rightharpoonup> 'a list) \<times> (string \<times> string) list list \<times>
               (nat \<times> 'a list) list \<times> 'a list list list)" where
  "simulate_replication_dynamics autos default_matrix num_periods payoff_matrix =
     (case run_periods autos (chosen_matrix default_matrix payoff_matrix) (nat num_periods) 0
             (initial_state autos) of
        Inl e \<Rightarrow> Inl e
      | Inr s \<Rightarrow>
          Inr (history s, payoff_history s, strategy_history s, payoff_matrices s,
               pairwise_payoffs_history s))"

text \<open>
  \<^verbatim>\<open>simulate_replication_dynamics(num_periods)\<close> of \<^verbatim>\<open>replication_dynamics.py\<close>. Its loop body
  (lines 75 to 98) computes the same products in the same order and adds each to
  \<^verbatim>\<open>payoffs[i]\<close> without keeping it; it records no diagnostics. The state is
  \<^verbatim>\<open>probabilities\<close>, \<^verbatim>\<open>history\<close> and \<^verbatim>\<open>payoff_history\<close>. The arguments \<open>autos\<close> and
  \<open>payoff_matrix\<close> are the module's \<^verbatim>\<open>automatons\<close> and \<^verbatim>\<open>payoff_matrix\<close>.
\<close>

definition rd_period_step ::
  "string list \<Rightarrow> 'a::{zero,one,plus,minus,times,inverse,ord} payoff_table \<Rightarrow>
   'a list \<times> 'a list list \<times> (string \<rightharpoonup> 'a list) \<Rightarrow>
   py_error + ('a list \<times> 'a list list \<times> (string \<rightharpoonup> 'a list))" where
  "rd_period_step autos payoff_matrix st =
     (case st of (probs, hist, pay_hist) \<Rightarrow>
        (case pairwise_rows payoff_matrix autos autos probs of
           Inl e \<Rightarrow> Inl e
         | Inr rows \<Rightarrow>
             (case np_min (payoffs_of rows) of
                Inl e \<Rightarrow> Inl e
              | Inr min_payoff \<Rightarrow>
                  (case reweight probs (payoffs_adjusted (payoffs_of rows) min_payoff) of
                     Inl e \<Rightarrow> Inl e
                   | Inr probs' \<Rightarrow>
                       Inr (probs', hist @ [probs'],
                            append_payoffs pay_hist autos (payoffs_of rows))))))"

fun rd_run_periods ::
  "string list \<Rightarrow> 'a::{zero,one,plus,minus,times,inverse,ord} payoff_table \<Rightarrow> nat \<Rightarrow>
   'a list \<times> 'a list list \<times> (string \<rightharpoonup> 'a list) \<Rightarrow>
   py_error + ('a list \<times> 'a list list \<times> (string \<rightharpoonup> 'a list))" where
  "rd_run_periods autos payoff_matrix 0 st = Inr st"
| "rd_run_periods autos payoff_matrix (Suc k) st =
     (case rd_period_step autos payoff_matrix st of
        Inl e \<Rightarrow> Inl e
      | Inr st' \<Rightarrow> rd_run_periods autos payoff_matrix k st')"

definition rd_simulate_replication_dynamics ::
  "string list \<Rightarrow> 'a::{zero,one,plus,minus,times,inverse,ord} payoff_table \<Rightarrow> int \<Rightarrow>
   py_error + ('a list list \<times> (string \<rightharpoonup> 'a list))" where
  "rd_simulate_replication_dynamics autos payoff_matrix num_periods =
     (let n_automatons = length autos;
          probs = replicate n_automatons (1 / as_float n_automatons)
      in case rd_run_periods autos payoff_matrix (nat num_periods) (probs, [probs], Map.empty) of
           Inl e \<Rightarrow> Inl e
         | Inr (probs', hist, pay_hist) \<Rightarrow> Inr (hist, pay_hist))"

subsection \<open>Valid input\<close>

text \<open>
  The payoff matrix defines a value for the ordered pair \<open>(a, b)\<close>; it is complete when
  it does so for every ordered pair of the strategies.
\<close>

definition has_entry :: "'a payoff_table \<Rightarrow> string \<Rightarrow> string \<Rightarrow> bool" where
  "has_entry payoff_matrix a b =
     (case payoff_matrix a of None \<Rightarrow> False | Some row \<Rightarrow> row b \<noteq> None)"

definition complete_matrix :: "string list \<Rightarrow> 'a payoff_table \<Rightarrow> bool" where
  "complete_matrix autos payoff_matrix =
     (\<forall>a \<in> set autos. \<forall>b \<in> set autos. has_entry payoff_matrix a b)"

text \<open>The value of an entry, for a matrix that has it.\<close>

definition entry :: "'a::zero payoff_table \<Rightarrow> string \<Rightarrow> string \<Rightarrow> 'a" where
  "entry payoff_matrix a b = (case getitem2 payoff_matrix a b of Inl e \<Rightarrow> 0 | Inr v \<Rightarrow> v)"

subsection \<open>The update rule in the specification's words\<close>

text \<open>
  These definitions follow the specification, not the source; the theorems compare
  them with the functions above. Indices run over \<open>0, \<dots>, K - 1\<close> in the order of the
  strategy list.

  Step 1: \<open>\<pi>\<^sub>i = \<Sum>\<^sub>j payoff_matrix[i][j] * p\<^sub>j\<close>.
\<close>

definition spec_payoff :: "string list \<Rightarrow> real payoff_table \<Rightarrow> real list \<Rightarrow> nat \<Rightarrow> real" where
  "spec_payoff autos payoff_matrix p i =
     (\<Sum>j<length autos. entry payoff_matrix (autos ! i) (autos ! j) * p ! j)"

text \<open>Step 4: \<open>m = min\<^sub>i \<pi>\<^sub>i\<close>; \<open>adj\<^sub>i = \<pi>\<^sub>i - m + 1\<close> if \<open>m < 0\<close>, else \<open>adj\<^sub>i = \<pi>\<^sub>i + 1\<close>.\<close>

definition spec_min_payoff :: "string list \<Rightarrow> real payoff_table \<Rightarrow> real list \<Rightarrow> real" where
  "spec_min_payoff autos payoff_matrix p =
     Min (spec_payoff autos payoff_matrix p ` {..<length autos})"

definition spec_adj :: "string list \<Rightarrow> real payoff_table \<Rightarrow> real list \<Rightarrow> nat \<Rightarrow> real" where
  "spec_adj autos payoff_matrix p i =
     (if spec_min_payoff autos payoff_matrix p < 0
      then spec_payoff autos payoff_matrix p i - spec_min_payoff autos payoff_matrix p + 1
      else spec_payoff autos payoff_matrix p i + 1)"

text \<open>Step 5: \<open>p\<^sub>i \<leftarrow> p\<^sub>i * adj\<^sub>i\<close>, then \<open>p\<^sub>i \<leftarrow> p\<^sub>i / \<Sum>\<^sub>k p\<^sub>k\<close>.\<close>

definition spec_update :: "string list \<Rightarrow> real payoff_table \<Rightarrow> real list \<Rightarrow> real list" where
  "spec_update autos payoff_matrix p =
     map (\<lambda>i. p ! i * spec_adj autos payoff_matrix p i /
               (\<Sum>k<length autos. p ! k * spec_adj autos payoff_matrix p k))
         [0..<length autos]"

text \<open>
  A population-share vector: one entry per strategy, no entry negative, the entries
  sum to 1.
\<close>

definition share_vector :: "string list \<Rightarrow> real list \<Rightarrow> bool" where
  "share_vector autos p = (length p = length autos \<and> list_all (\<lambda>x. 0 \<le> x) p \<and> sum_list p = 1)"

subsection \<open>float64 arithmetic, for evaluating concrete runs\<close>

text \<open>
  A finite float64 number is kept by its exact value. Each operation computes the exact
  result and rounds it to the nearest number with a significand of 53 bits (the unit in
  the last place is \<open>2\<^sup>e\<^sup>-\<^sup>5\<^sup>2\<close> for a value in \<open>[2\<^sup>e, 2\<^sup>e\<^sup>+\<^sup>1)\<close>, and never below \<open>2\<^sup>-\<^sup>1\<^sup>0\<^sup>7\<^sup>4\<close>), a
  tie going to the even significand: the round-to-nearest-even of IEEE 754, which is
  numpy's arithmetic on float64. Infinities, NaN and the sign of zero are not
  represented, and a result beyond the largest finite number is not turned into an
  infinity: the type serves to evaluate runs whose values stay inside the range.

  \<open>bit_length n\<close> is the number of binary digits of \<open>n\<close>; \<open>ilog2 x\<close> is the exponent \<open>e\<close> with
  \<open>2\<^sup>e \<le> x < 2\<^sup>e\<^sup>+\<^sup>1\<close> for a positive \<open>x\<close>.
\<close>

fun bit_length :: "nat \<Rightarrow> nat" where
  "bit_length n = (if n = 0 then 0 else Suc (bit_length (n div 2)))"

declare bit_length.simps [simp del]

definition pow2 :: "int \<Rightarrow> real" where
  "pow2 k = (if 0 \<le> k then 2 ^ nat k else 1 / 2 ^ nat (- k))"

definition ilog2 :: "real \<Rightarrow> int" where
  "ilog2 x = (if 1 \<le> x then int (bit_length (nat \<lfloor>x\<rfloor>)) - 1
              else - int (bit_length (nat (\<lceil>1 / x\<rceil> - 1))))"

definition round_half_even :: "real \<Rightarrow> int" where
  "round_half_even q =
     (let f = \<lfloor>q\<rfloor>; d = q - of_int f
      in if d < 1 / 2 then f else if 1 / 2 < d then f + 1 else if even f then f else f + 1)"

definition round_float64 :: "real \<Rightarrow> real" where
  "round_float64 x =
     (if x = 0 then 0
      else let ulp = pow2 (max (ilog2 \<bar>x\<bar>) (- 1022) - 52)
           in of_int (round_half_even (x / ulp)) * ulp)"

datatype float64 = Float64 (exact: real)

instantiation float64 :: "{zero,one,plus,minus,times,inverse,ord}"
begin

definition zero_float64 :: float64 where
  "zero_float64 = Float64 0"

definition one_float64 :: float64 where
  "one_float64 = Float64 1"

definition plus_float64 :: "float64 \<Rightarrow> float64 \<Rightarrow> float64" where
  "plus_float64 a b = Float64 (round_float64 (exact a + exact b))"

definition minus_float64 :: "float64 \<Rightarrow> float64 \<Rightarrow> float64" where
  "minus_float64 a b = Float64 (round_float64 (exact a - exact b))"

definition times_float64 :: "float64 \<Rightarrow> float64 \<Rightarrow> float64" where
  "times_float64 a b = Float64 (round_float64 (exact a * exact b))"

definition divide_float64 :: "float64 \<Rightarrow> float64 \<Rightarrow> float64" where
  "divide_float64 a b = Float64 (round_float64 (exact a / exact b))"

definition inverse_float64 :: "float64 \<Rightarrow> float64" where
  "inverse_float64 a = Float64 (round_float64 (1 / exact a))"

definition less_eq_float64 :: "float64 \<Rightarrow> float64 \<Rightarrow> bool" where
  "less_eq_float64 a b = (exact a \<le> exact b)"

definition less_float64 :: "float64 \<Rightarrow> float64 \<Rightarrow> bool" where
  "less_float64 a b = (exact a < exact b)"

instance ..

end



subsection \<open>Auxiliary notions for the proofs\<close>



text \<open>
  The part of the state of \<^verbatim>\<open>streamlit_app.py\<close>'s loop that \<^verbatim>\<open>replication_dynamics.py\<close>'s
  loop keeps.
\<close>

definition rd_view :: "'a sim_state \<Rightarrow> 'a list \<times> 'a list list \<times> (string \<rightharpoonup> 'a list)" where
  "rd_view s = (probabilities s, history s, payoff_history s)"

text \<open>
  The invariant of the loop in exact arithmetic: \<^verbatim>\<open>probabilities\<close> is the last vector of
  \<^verbatim>\<open>history\<close>; every vector of \<^verbatim>\<open>history\<close> is a share vector; each vector but the first is
  the specification's update of the one before; and \<^verbatim>\<open>payoff_history\<close> holds, for the
  strategy at index \<open>i\<close> and each completed period \<open>t\<close>, the specification's payoff of \<open>i\<close> for
  the vector \<open>t\<close> of \<^verbatim>\<open>history\<close>.
\<close>

definition run_inv :: "string list \<Rightarrow> real payoff_table \<Rightarrow> real sim_state \<Rightarrow> bool" where
  "run_inv autos pm s \<longleftrightarrow>
     history s \<noteq> [] \<and> probabilities s = last (history s) \<and>
     (\<forall>v \<in> set (history s). share_vector autos v) \<and>
     (\<forall>t. Suc t < length (history s) \<longrightarrow>
        history s ! Suc t = spec_update autos pm (history s ! t)) \<and>
     (\<forall>i<length autos. dd_get (payoff_history s) (autos ! i) =
        map (\<lambda>t. spec_payoff autos pm (history s ! t) i) [0..<length (history s) - 1])"

text \<open>
  What a run on valid input yields in exact arithmetic: the final state \<open>s\<close> of the loop
  satisfies the invariant, both variants return its series, and the diagnostics of
  \<^verbatim>\<open>streamlit_app.py\<close> have the stated shape.
\<close>

definition run_outcome ::
  "string list \<Rightarrow> real payoff_table \<Rightarrow> real payoff_table option \<Rightarrow> int \<Rightarrow> real sim_state \<Rightarrow> bool"
  where
  "run_outcome autos d pm n s \<longleftrightarrow>
     run_inv autos (chosen_matrix d pm) s \<and>
     length (history s) = nat n + 1 \<and>
     history s ! 0 = replicate (length autos) (1 / real (length autos)) \<and>
     strategy_history s =
       (case period_strategies (chosen_matrix d pm) autos autos of
          Inr items \<Rightarrow> replicate (nat n) items
        | Inl e \<Rightarrow> []) \<and>
     simulate_replication_dynamics autos d n pm =
       Inr (history s, payoff_history s, strategy_history s, payoff_matrices s,
            pairwise_payoffs_history s) \<and>
     rd_simulate_replication_dynamics autos (chosen_matrix d pm) n =
       Inr (history s, payoff_history s)"

subsection \<open>The specification's dominance scenario\<close>

text \<open>
  The concrete scenario of the specification's testable properties: two strategies
  \<open>A\<close> and \<open>B\<close> with the payoff matrix \<^verbatim>\<open>A:{A:3,B:3}, B:{A:0,B:0}\<close>. (The number 3 is
  written with the operations every number type here has.)
\<close>

definition scenario_strategies :: "string list" where
  "scenario_strategies = [''A'', ''B'']"


section \<open>Properties\<close>

subsection \<open>The primitives in exact arithmetic\<close>

lemma as_float_of_nat: "(as_float n :: 'a::semiring_1) = of_nat n"
  by (induction n) (simp_all add: add.commute)

lemma foldl_add_sum_list: "foldl (+) a xs = (a::'a::monoid_add) + sum_list xs"
  by (induction xs arbitrary: a) (simp_all add: add.assoc)

lemma np_sum_sum_list: "np_sum xs = (sum_list xs :: 'a::monoid_add)"
  by (simp add: np_sum_def foldl_add_sum_list)

lemma payoffs_of_sum_list: "payoffs_of rows = map (sum_list :: 'a::monoid_add list \<Rightarrow> 'a) rows"
  by (simp add: payoffs_of_def foldl_add_sum_list)

lemma foldl_min_Min: "foldl min x xs = Min (set (x # xs :: 'a::linorder list))"
proof -
  have "(\<lambda>a s. min s a) = (min :: 'a \<Rightarrow> 'a \<Rightarrow> 'a)"
    by (intro ext) (simp add: min.commute)
  then have "foldl min x xs = fold min xs x"
    by (simp add: foldl_conv_fold)
  then show ?thesis
    by (simp only: Min.set_eq_fold)
qed

lemma np_min_Min: "xs \<noteq> [] \<Longrightarrow> np_min xs = Inr (Min (set (xs :: 'a::linorder list)))"
  by (cases xs) (simp_all add: np_min_def foldl_min_Min)

lemma has_entry_getitem2: "has_entry pm a b \<Longrightarrow> getitem2 pm a b = Inr (entry pm a b)"
  by (auto simp: has_entry_def getitem2_def entry_def split: option.splits)

lemma not_has_entry_getitem2: "\<not> has_entry pm a b \<Longrightarrow> \<exists>k. getitem2 pm a b = Inl (KeyError k)"
  by (auto simp: has_entry_def getitem2_def split: option.splits)

lemma pairwise_row_complete:
  "\<forall>b \<in> set bs. has_entry pm a b \<Longrightarrow> length bs \<le> length ps \<Longrightarrow>
   pairwise_row pm a bs ps = Inr (map2 (\<lambda>b p. entry pm a b * p) bs ps)"
proof (induction bs arbitrary: ps)
  case Nil
  then show ?case by simp
next
  case (Cons b bs)
  then obtain p ps' where ps: "ps = p # ps'" by (cases ps) auto
  with Cons show ?case by (simp add: has_entry_getitem2)
qed

lemma pairwise_rows_complete:
  "\<forall>a \<in> set as. \<forall>b \<in> set bs. has_entry pm a b \<Longrightarrow> length bs \<le> length ps \<Longrightarrow>
   pairwise_rows pm as bs ps = Inr (map (\<lambda>a. map2 (\<lambda>b p. entry pm a b * p) bs ps) as)"
  by (induction as) (simp_all add: pairwise_row_complete)

lemma sum_list_map2_nth:
  "length bs = length ps \<Longrightarrow>
   sum_list (map2 f bs ps) = (\<Sum>j<length bs. (f (bs ! j) (ps ! j) :: real))"
proof -
  assume len: "length bs = length ps"
  have "sum_list (map2 f bs ps) = (\<Sum>j = 0..<length (map2 f bs ps). map2 f bs ps ! j)"
    by (rule sum_list_sum_nth)
  also have "\<dots> = (\<Sum>j<length bs. f (bs ! j) (ps ! j))"
    using len by (simp add: atLeast0LessThan)
  finally show ?thesis .
qed

lemma map_by_index: "map g xs = map (\<lambda>i. g (xs ! i)) [0..<length xs]"
  by (rule nth_equalityI) simp_all

lemma payoffs_of_spec:
  assumes "length p = length autos"
  shows "payoffs_of (map (\<lambda>a. map2 (\<lambda>b q. entry pm a b * q) autos p) autos)
         = map (spec_payoff autos pm p) [0..<length autos]"
proof -
  have "payoffs_of (map (\<lambda>a. map2 (\<lambda>b q. entry pm a b * q) autos p) autos)
        = map (\<lambda>a. \<Sum>j<length autos. entry pm a (autos ! j) * p ! j) autos"
    using assms by (simp add: payoffs_of_sum_list sum_list_map2_nth o_def)
  also have "\<dots> = map (\<lambda>i. \<Sum>j<length autos. entry pm (autos ! i) (autos ! j) * p ! j) [0..<length autos]"
    by (rule map_by_index)
  also have "\<dots> = map (spec_payoff autos pm p) [0..<length autos]"
    unfolding spec_payoff_def ..
  finally show ?thesis .
qed

lemma payoffs_adjusted_ge_1:
  fixes xs :: "real list"
  assumes "np_min xs = Inr m"
  shows "\<forall>x \<in> set (payoffs_adjusted xs m). 1 \<le> x"
proof -
  from assms have ne: "xs \<noteq> []" by (auto simp: np_min_def)
  with assms have m: "m = Min (set xs)" by (simp add: np_min_Min)
  have "\<forall>x \<in> set xs. m \<le> x" unfolding m by simp
  then show ?thesis by (auto simp: payoffs_adjusted_def)
qed

lemma sum_list_map2_ge:
  fixes p adj :: "real list"
  assumes "length p = length adj" "\<forall>x \<in> set p. 0 \<le> x" "\<forall>a \<in> set adj. 1 \<le> a"
  shows "sum_list p \<le> sum_list (map2 (*) p adj)"
  using assms
proof (induction p adj rule: list_induct2)
  case Nil
  then show ?case by simp
next
  case (Cons x xs y ys)
  then have "x \<le> x * y" by (simp add: mult_le_cancel_left1)
  with Cons show ?case by simp
qed

lemma reweight_share:
  fixes p adj :: "real list"
  assumes "length adj = length p" "\<forall>x \<in> set p. 0 \<le> x" "sum_list p = 1" "\<forall>a \<in> set adj. 1 \<le> a"
  shows "0 < np_sum (map2 (*) p adj)"
    and "reweight p adj = Inr (map (\<lambda>x. x / sum_list (map2 (*) p adj)) (map2 (*) p adj))"
    and "\<exists>p'. reweight p adj = Inr p' \<and> length p' = length p \<and> (\<forall>x \<in> set p'. 0 \<le> x) \<and> sum_list p' = 1"
proof -
  let ?w = "map2 (*) p adj"
  have ge: "1 \<le> sum_list ?w"
    using sum_list_map2_ge[of p adj] assms by simp
  then show pos: "0 < np_sum ?w" by (simp add: np_sum_sum_list)
  then show eq: "reweight p adj = Inr (map (\<lambda>x. x / sum_list ?w) ?w)"
    by (simp add: reweight_def Let_def np_sum_sum_list)
  have nonneg: "\<forall>x \<in> set ?w. 0 \<le> x"
  proof
    fix x assume "x \<in> set ?w"
    then obtain a b where "(a, b) \<in> set (zip p adj)" "x = a * b" by auto
    then have "a \<in> set p" "b \<in> set adj" by (auto dest: set_zip_leftD set_zip_rightD)
    with assms \<open>x = a * b\<close> show "0 \<le> x" by (auto intro!: mult_nonneg_nonneg)
  qed
  have "sum_list (map (\<lambda>x. x / sum_list ?w) ?w) = sum_list ?w / sum_list ?w"
    by (simp add: divide_inverse sum_list_mult_const del: map_map)
  with ge have s1: "sum_list (map (\<lambda>x. x / sum_list ?w) ?w) = 1" by simp
  have "\<forall>x \<in> set (map (\<lambda>x. x / sum_list ?w) ?w). 0 \<le> x"
    using nonneg ge by auto
  with s1 eq assms(1) show "\<exists>p'. reweight p adj = Inr p' \<and> length p' = length p \<and> (\<forall>x \<in> set p'. 0 \<le> x) \<and> sum_list p' = 1"
    by simp
qed

subsection \<open>Best responses and the payoff history\<close>

lemma argmax_from_correct:
  fixes ys xs :: "'a::linorder list"
  assumes "bi < length ys" "ys ! bi = best" "\<forall>y \<in> set ys. y \<le> best"
  shows "argmax_from xs (length ys) best bi < length (ys @ xs) \<and>
         (\<forall>y \<in> set (ys @ xs). y \<le> (ys @ xs) ! argmax_from xs (length ys) best bi)"
  using assms
proof (induction xs arbitrary: ys best bi)
  case Nil
  then show ?case by simp
next
  case (Cons x xs)
  show ?case
  proof (cases "best < x")
    case True
    have "argmax_from xs (length (ys @ [x])) x (length ys) < length ((ys @ [x]) @ xs) \<and>
          (\<forall>y \<in> set ((ys @ [x]) @ xs). y \<le> ((ys @ [x]) @ xs) ! argmax_from xs (length (ys @ [x])) x (length ys))"
      using Cons.prems True by (intro Cons.IH) (auto simp: nth_append)
    with True show ?thesis by simp
  next
    case False
    have "argmax_from xs (length (ys @ [x])) best bi < length ((ys @ [x]) @ xs) \<and>
          (\<forall>y \<in> set ((ys @ [x]) @ xs). y \<le> ((ys @ [x]) @ xs) ! argmax_from xs (length (ys @ [x])) best bi)"
      using Cons.prems False by (intro Cons.IH) (auto simp: nth_append)
    with False show ?thesis by simp
  qed
qed

lemma np_argmax_correct:
  fixes xs :: "'a::linorder list"
  assumes "xs \<noteq> []"
  shows "\<exists>k. np_argmax xs = Inr k \<and> k < length xs \<and> (\<forall>y \<in> set xs. y \<le> xs ! k)"
proof -
  from assms obtain x rest where xs: "xs = x # rest" by (cases xs) auto
  have "argmax_from rest (length [x]) x 0 < length ([x] @ rest) \<and>
        (\<forall>y \<in> set ([x] @ rest). y \<le> ([x] @ rest) ! argmax_from rest (length [x]) x 0)"
    by (rule argmax_from_correct) simp_all
  then show ?thesis by (simp add: xs np_argmax_def)
qed

lemma row_values_complete:
  "\<forall>b \<in> set bs. has_entry pm a b \<Longrightarrow> row_values pm a bs = Inr (map (entry pm a) bs)"
  by (induction bs) (simp_all add: has_entry_getitem2)

lemma best_opponent_correct:
  fixes pm :: "'a::{linorder,zero} payoff_table"
  assumes "\<forall>b \<in> set autos. has_entry pm a b" "autos \<noteq> []"
  shows "\<exists>b. best_opponent pm autos a = Inr b \<and> b \<in> set autos \<and>
             (\<forall>c \<in> set autos. entry pm a c \<le> entry pm a b)"
proof -
  have ne: "map (entry pm a) autos \<noteq> []" using assms(2) by simp
  from np_argmax_correct[OF ne] obtain k where
    k: "np_argmax (map (entry pm a) autos) = Inr k" "k < length autos"
       "\<forall>y \<in> set (map (entry pm a) autos). y \<le> map (entry pm a) autos ! k"
    by auto
  then have "\<forall>c \<in> set autos. entry pm a c \<le> entry pm a (autos ! k)" by simp
  with k assms(1) show ?thesis
    by (simp add: best_opponent_def row_values_complete)
qed

lemma period_strategies_correct:
  fixes pm :: "'a::{linorder,zero} payoff_table"
  assumes "\<forall>a \<in> set as. \<forall>b \<in> set autos. has_entry pm a b" "autos \<noteq> []"
  shows "\<exists>items. period_strategies pm as autos = Inr items \<and> map fst items = as \<and>
           (\<forall>(a, b) \<in> set items. b \<in> set autos \<and> (\<forall>c \<in> set autos. entry pm a c \<le> entry pm a b))"
  using assms
proof (induction as)
  case Nil
  then show ?case by simp
next
  case (Cons a as)
  then obtain items where items: "period_strategies pm as autos = Inr items" "map fst items = as"
    "\<forall>(a, b) \<in> set items. b \<in> set autos \<and> (\<forall>c \<in> set autos. entry pm a c \<le> entry pm a b)"
    by auto
  from Cons.prems obtain b where b: "best_opponent pm autos a = Inr b" "b \<in> set autos"
    "\<forall>c \<in> set autos. entry pm a c \<le> entry pm a b"
    using best_opponent_correct[of autos pm a] by auto
  from items b show ?case by simp
qed

lemma append_payoffs_other:
  "a \<notin> set as \<Longrightarrow> append_payoffs d as xs a = d a"
  by (induction d as xs rule: append_payoffs.induct) auto

lemma dd_get_append_payoffs_other:
  "a \<notin> set as \<Longrightarrow> dd_get (append_payoffs d as xs) a = dd_get d a"
  by (simp add: dd_get_def append_payoffs_other)

lemma dd_get_append_payoffs:
  "distinct as \<Longrightarrow> length xs = length as \<Longrightarrow> i < length as \<Longrightarrow>
   dd_get (append_payoffs d as xs) (as ! i) = dd_get d (as ! i) @ [xs ! i]"
proof (induction d as xs arbitrary: i rule: append_payoffs.induct)
  case (1 d a rest x xs)
  show ?case
  proof (cases i)
    case 0
    with 1 show ?thesis
      by (simp add: dd_get_append_payoffs_other) (simp add: dd_get_def)
  next
    case (Suc j)
    from "1.prems" Suc have "distinct rest" "length xs = length rest" "j < length rest"
      by auto
    then have "dd_get (append_payoffs (d(a \<mapsto> dd_get d a @ [x])) rest xs) (rest ! j)
                 = dd_get (d(a \<mapsto> dd_get d a @ [x])) (rest ! j) @ [xs ! j]"
      by (rule "1.IH")
    moreover have "rest ! j \<noteq> a" using 1 Suc by auto
    ultimately show ?thesis using Suc by (simp add: dd_get_def)
  qed
qed auto

subsection \<open>One period against the specification\<close>

lemma share_vectorD:
  "share_vector autos p \<Longrightarrow> length p = length autos"
  "share_vector autos p \<Longrightarrow> \<forall>x \<in> set p. 0 \<le> x"
  "share_vector autos p \<Longrightarrow> sum_list p = 1"
  by (simp_all add: share_vector_def list_all_iff)

lemma complete_matrixD:
  "complete_matrix autos pm \<Longrightarrow> \<forall>a \<in> set autos. \<forall>b \<in> set autos. has_entry pm a b"
  by (simp add: complete_matrix_def)

lemma code_payoffs:
  assumes "complete_matrix autos pm" "length p = length autos"
  shows "\<exists>rows. pairwise_rows pm autos autos p = Inr rows \<and>
           payoffs_of rows = map (spec_payoff autos pm p) [0..<length autos]"
  using assms
  by (simp add: pairwise_rows_complete[OF complete_matrixD] payoffs_of_spec)

lemma code_min:
  assumes "autos \<noteq> []"
  shows "np_min (map (spec_payoff autos pm p) [0..<length autos]) = Inr (spec_min_payoff autos pm p)"
proof -
  have "map (spec_payoff autos pm p) [0..<length autos] \<noteq> []" using assms by simp
  then have "np_min (map (spec_payoff autos pm p) [0..<length autos])
             = Inr (Min (set (map (spec_payoff autos pm p) [0..<length autos])))"
    by (rule np_min_Min)
  then show ?thesis by (simp add: spec_min_payoff_def atLeast0LessThan)
qed

lemma code_adjusted:
  "payoffs_adjusted (map (spec_payoff autos pm p) [0..<length autos]) (spec_min_payoff autos pm p)
   = map (spec_adj autos pm p) [0..<length autos]"
  by (simp add: payoffs_adjusted_def spec_adj_def)

lemma map2_by_index:
  "length p = n \<Longrightarrow> map2 f p (map g [0..<n]) = map (\<lambda>i. f (p ! i) (g i)) [0..<n]"
  by (rule nth_equalityI) simp_all

lemma sum_list_upt: "sum_list (map f [0..<n]) = (\<Sum>k<n. (f k :: real))"
  by (simp add: interv_sum_list_conv_sum_set_nat atLeast0LessThan)

lemma code_reweight:
  assumes "length p = length autos"
    and "reweight p (map (spec_adj autos pm p) [0..<length autos]) = Inr p'"
  shows "p' = spec_update autos pm p"
proof -
  let ?w = "map (\<lambda>i. p ! i * spec_adj autos pm p i) [0..<length autos]"
  have w: "map2 (*) p (map (spec_adj autos pm p) [0..<length autos]) = ?w"
    using assms(1) by (rule map2_by_index)
  from assms(2) have "p' = map (\<lambda>x. x / np_sum ?w) ?w"
    by (simp add: reweight_def Let_def w split: if_splits)
  then show ?thesis
    by (simp add: spec_update_def np_sum_sum_list sum_list_upt o_def)
qed

lemma adj_ge_1:
  assumes "autos \<noteq> []"
  shows "\<forall>x \<in> set (map (spec_adj autos pm p) [0..<length autos]). 1 \<le> x"
  using payoffs_adjusted_ge_1[OF code_min[OF assms, of pm p]]
  by (simp only: code_adjusted)

lemma step_share:
  assumes "autos \<noteq> []" "share_vector autos p"
  shows "reweight p (map (spec_adj autos pm p) [0..<length autos]) = Inr (spec_update autos pm p)"
    and "share_vector autos (spec_update autos pm p)"
    and "0 < np_sum (map2 (*) p (map (spec_adj autos pm p) [0..<length autos]))"
proof -
  let ?adj = "map (spec_adj autos pm p) [0..<length autos]"
  have len: "length ?adj = length p" using assms(2) by (simp add: share_vectorD)
  from reweight_share(3)[OF len share_vectorD(2)[OF assms(2)] share_vectorD(3)[OF assms(2)] adj_ge_1[OF assms(1)]]
  obtain p' where p': "reweight p ?adj = Inr p'" "length p' = length p" "\<forall>x \<in> set p'. 0 \<le> x" "sum_list p' = 1"
    by auto
  have eq: "p' = spec_update autos pm p"
    using p'(1) assms(2) by (intro code_reweight) (simp_all add: share_vectorD)
  from p' eq show "reweight p ?adj = Inr (spec_update autos pm p)" by simp
  from p' eq assms(2) show "share_vector autos (spec_update autos pm p)"
    by (simp add: share_vector_def list_all_iff)
  show "0 < np_sum (map2 (*) p ?adj)"
    by (rule reweight_share(1)[OF len share_vectorD(2)[OF assms(2)] share_vectorD(3)[OF assms(2)] adj_ge_1[OF assms(1)]])
qed

lemma period_step_Inr:
  "period_step autos pm t s = Inr s' \<Longrightarrow>
   \<exists>rows items m.
     pairwise_rows pm autos autos (probabilities s) = Inr rows \<and>
     period_strategies pm autos autos = Inr items \<and>
     np_min (payoffs_of rows) = Inr m \<and>
     reweight (probabilities s) (payoffs_adjusted (payoffs_of rows) m) = Inr (probabilities s') \<and>
     history s' = history s @ [probabilities s'] \<and>
     payoff_history s' = append_payoffs (payoff_history s) autos (payoffs_of rows) \<and>
     strategy_history s' = strategy_history s @ [items] \<and>
     payoff_matrices s' = payoff_matrices s @ [(t, payoffs_of rows)] \<and>
     pairwise_payoffs_history s' = pairwise_payoffs_history s @ [rows]"
  by (auto simp: period_step_def split: sum.splits)

lemma period_step_valid:
  fixes pm :: "real payoff_table"
  assumes "complete_matrix autos pm" "autos \<noteq> []" "share_vector autos (probabilities s)"
  shows "\<exists>s'. period_step autos pm t s = Inr s'"
proof -
  let ?p = "probabilities s"
  have len: "length ?p = length autos" using assms(3) by (rule share_vectorD)
  from code_payoffs[OF assms(1) len] obtain rows where
    rows: "pairwise_rows pm autos autos ?p = Inr rows"
          "payoffs_of rows = map (spec_payoff autos pm ?p) [0..<length autos]" by auto
  from period_strategies_correct[of autos autos pm] assms obtain items where
    items: "period_strategies pm autos autos = Inr items"
    by (auto dest: complete_matrixD)
  show ?thesis
    by (simp add: period_step_def rows items code_min[OF assms(2)] code_adjusted
        step_share(1)[OF assms(2,3)])
qed

lemma period_step_spec:
  fixes pm :: "real payoff_table"
  assumes "period_step autos pm t s = Inr s'"
    and "complete_matrix autos pm" "autos \<noteq> []" "share_vector autos (probabilities s)"
  shows "probabilities s' = spec_update autos pm (probabilities s)"
    and "payoff_history s' = append_payoffs (payoff_history s) autos
           (map (spec_payoff autos pm (probabilities s)) [0..<length autos])"
proof -
  let ?p = "probabilities s"
  have len: "length ?p = length autos" using assms(4) by (rule share_vectorD)
  from code_payoffs[OF assms(2) len] obtain rows where
    rows: "pairwise_rows pm autos autos ?p = Inr rows"
          "payoffs_of rows = map (spec_payoff autos pm ?p) [0..<length autos]" by auto
  from period_step_Inr[OF assms(1)] rows
  have "reweight ?p (payoffs_adjusted (map (spec_payoff autos pm ?p) [0..<length autos])
          (spec_min_payoff autos pm ?p)) = Inr (probabilities s')"
    and ph: "payoff_history s' = append_payoffs (payoff_history s) autos
           (map (spec_payoff autos pm ?p) [0..<length autos])"
    by (auto simp: code_min[OF assms(3)])
  then show "probabilities s' = spec_update autos pm ?p"
    by (simp add: code_adjusted step_share(1)[OF assms(3,4)])
  show "payoff_history s' = append_payoffs (payoff_history s) autos
           (map (spec_payoff autos pm ?p) [0..<length autos])" by (rule ph)
qed

subsection \<open>The loop\<close>

lemma run_inv_initial:
  assumes "autos \<noteq> []"
  shows "run_inv autos pm (initial_state autos)"
proof -
  have "sum_list (replicate (length autos) (1 / real (length autos))) = 1"
    using assms by (simp add: sum_list_replicate)
  then show ?thesis
    by (simp add: run_inv_def initial_state_def Let_def as_float_of_nat share_vector_def
        list_all_iff dd_get_def)
qed

lemma run_inv_step:
  assumes inv: "run_inv autos pm s"
    and step: "period_step autos pm t s = Inr s'"
    and valid: "complete_matrix autos pm" "autos \<noteq> []" "distinct autos"
  shows "run_inv autos pm s'"
proof -
  let ?h = "history s" and ?p = "probabilities s"
  from inv have ne: "?h \<noteq> []" and last: "?p = last ?h"
    and shares: "\<forall>v \<in> set ?h. share_vector autos v"
    and succ: "\<forall>t. Suc t < length ?h \<longrightarrow> ?h ! Suc t = spec_update autos pm (?h ! t)"
    and pays: "\<forall>i<length autos. dd_get (payoff_history s) (autos ! i) =
        map (\<lambda>t. spec_payoff autos pm (?h ! t) i) [0..<length ?h - 1]"
    by (simp_all add: run_inv_def)
  from ne last shares have sp: "share_vector autos ?p" by simp
  from ne last have p_nth: "?p = ?h ! (length ?h - 1)" by (simp add: last_conv_nth)
  note spec = period_step_spec[OF step valid(1,2) sp]
  from period_step_Inr[OF step] have h': "history s' = ?h @ [probabilities s']" by auto
  have sp': "share_vector autos (probabilities s')"
    using step_share(2)[OF valid(2) sp] spec(1) by simp
  have c1: "history s' \<noteq> []" "probabilities s' = last (history s')" by (simp_all add: h')
  have c2: "\<forall>v \<in> set (history s'). share_vector autos v" using shares sp' by (simp add: h')
  have c3: "\<forall>t. Suc t < length (history s') \<longrightarrow>
              history s' ! Suc t = spec_update autos pm (history s' ! t)"
  proof (intro allI impI)
    fix t assume t: "Suc t < length (history s')"
    show "history s' ! Suc t = spec_update autos pm (history s' ! t)"
    proof (cases "Suc t < length ?h")
      case True
      with succ show ?thesis by (simp add: h' nth_append)
    next
      case False
      with t have eq: "Suc t = length ?h" by (simp add: h')
      then have "length ?h - 1 = t" by simp
      with p_nth have "?p = ?h ! t" by simp
      with eq spec(1) show ?thesis by (simp add: h' nth_append)
    qed
  qed
  have c4: "\<forall>i<length autos. dd_get (payoff_history s') (autos ! i) =
        map (\<lambda>t. spec_payoff autos pm (history s' ! t) i) [0..<length (history s') - 1]"
  proof (intro allI impI)
    fix i assume i: "i < length autos"
    have "dd_get (payoff_history s') (autos ! i)
          = dd_get (payoff_history s) (autos ! i) @ [spec_payoff autos pm ?p i]"
      using i valid(3) by (simp add: spec(2) dd_get_append_payoffs)
    also have "\<dots> = map (\<lambda>t. spec_payoff autos pm (?h ! t) i) [0..<length ?h - 1]
                     @ [spec_payoff autos pm (?h ! (length ?h - 1)) i]"
      using pays i p_nth by simp
    also have "\<dots> = map (\<lambda>t. spec_payoff autos pm (?h ! t) i) ([0..<length ?h - 1] @ [length ?h - 1])"
      by simp
    also have "[0..<length ?h - 1] @ [length ?h - 1] = [0..<length ?h]"
      using ne by (cases ?h) simp_all
    also have "map (\<lambda>t. spec_payoff autos pm (?h ! t) i) [0..<length ?h]
               = map (\<lambda>t. spec_payoff autos pm (history s' ! t) i) [0..<length (history s') - 1]"
      by (simp add: h' nth_append)
    finally show "dd_get (payoff_history s') (autos ! i) =
        map (\<lambda>t. spec_payoff autos pm (history s' ! t) i) [0..<length (history s') - 1]" .
  qed
  from c1 c2 c3 c4 show ?thesis by (simp add: run_inv_def)
qed

lemma run_periods_valid:
  assumes "run_inv autos pm s" "complete_matrix autos pm" "autos \<noteq> []" "distinct autos"
  shows "\<exists>s'. run_periods autos pm k t s = Inr s' \<and> run_inv autos pm s'"
  using assms(1)
proof (induction k arbitrary: t s)
  case 0
  then show ?case by simp
next
  case (Suc k)
  from Suc.prems have "share_vector autos (probabilities s)" by (simp add: run_inv_def)
  from period_step_valid[OF assms(2,3) this] obtain s1 where
    s1: "period_step autos pm t s = Inr s1" by auto
  from run_inv_step[OF Suc.prems s1 assms(2,3,4)] have "run_inv autos pm s1" .
  from Suc.IH[OF this] s1 show ?case by simp
qed

lemma run_periods_history:
  "run_periods autos pm k t s = Inr s' \<Longrightarrow>
   \<exists>ext. history s' = history s @ ext \<and> length ext = k"
proof (induction k arbitrary: t s)
  case 0
  then show ?case by simp
next
  case (Suc k)
  then obtain s1 where s1: "period_step autos pm t s = Inr s1"
    and rest: "run_periods autos pm k (Suc t) s1 = Inr s'"
    by (auto split: sum.splits)
  from period_step_Inr[OF s1] have "history s1 = history s @ [probabilities s1]" by auto
  moreover from Suc.IH[OF rest] obtain ext where "history s' = history s1 @ ext" "length ext = k"
    by auto
  ultimately show ?case by simp
qed

lemma run_periods_strategies:
  "run_periods autos pm k t s = Inr s' \<Longrightarrow> 0 < k \<Longrightarrow>
   \<exists>items. period_strategies pm autos autos = Inr items \<and>
      strategy_history s' = strategy_history s @ replicate k items"
proof (induction k arbitrary: t s)
  case 0
  then show ?case by simp
next
  case (Suc k)
  then obtain s1 where s1: "period_step autos pm t s = Inr s1"
    and rest: "run_periods autos pm k (Suc t) s1 = Inr s'"
    by (auto split: sum.splits)
  from period_step_Inr[OF s1] obtain items where
    items: "period_strategies pm autos autos = Inr items"
           "strategy_history s1 = strategy_history s @ [items]" by auto
  show ?case
  proof (cases k)
    case 0
    with rest items show ?thesis by simp
  next
    case (Suc j)
    with Suc.IH[OF rest] items show ?thesis by (auto simp: replicate_append_same)
  qed
qed

subsection \<open>The two variants agree\<close>

lemma pairwise_row_entries:
  "pairwise_row pm a bs ps = Inr row \<Longrightarrow> \<forall>b \<in> set bs. has_entry pm a b"
proof (induction bs arbitrary: ps row)
  case Nil
  then show ?case by simp
next
  case (Cons b bs)
  then show ?case
    by (fastforce simp: getitem2_def has_entry_def split: sum.splits list.splits option.splits)
qed

lemma pairwise_rows_entries:
  "pairwise_rows pm as bs ps = Inr rows \<Longrightarrow> \<forall>a \<in> set as. \<forall>b \<in> set bs. has_entry pm a b"
proof (induction as arbitrary: rows)
  case Nil
  then show ?case by simp
next
  case (Cons a as)
  then show ?case
    by (auto split: sum.splits dest: pairwise_row_entries)
qed

lemma getitem2_has_entry: "has_entry pm a b \<Longrightarrow> \<exists>v. getitem2 pm a b = Inr v"
  by (auto simp: has_entry_def getitem2_def split: option.splits)

lemma row_values_total:
  "\<forall>b \<in> set bs. has_entry pm a b \<Longrightarrow> \<exists>vs. row_values pm a bs = Inr vs \<and> length vs = length bs"
proof (induction bs)
  case Nil
  then show ?case by simp
next
  case (Cons b bs)
  then obtain vs where "row_values pm a bs = Inr vs" "length vs = length bs" by auto
  moreover from Cons.prems obtain v where "getitem2 pm a b = Inr v"
    using getitem2_has_entry[of pm a b] by auto
  ultimately show ?case by simp
qed

lemma period_strategies_total:
  assumes "\<forall>a \<in> set as. \<forall>b \<in> set autos. has_entry pm a b" "autos \<noteq> []"
  shows "\<exists>items. period_strategies pm as autos = Inr items"
  using assms(1)
proof (induction as)
  case Nil
  then show ?case by simp
next
  case (Cons a as)
  then obtain items where items: "period_strategies pm as autos = Inr items" by auto
  from Cons.prems obtain vs where vs: "row_values pm a autos = Inr vs" "length vs = length autos"
    using row_values_total[of autos pm a] by auto
  with assms(2) have "vs \<noteq> []" by auto
  then obtain k where "np_argmax vs = Inr k" by (cases vs) (auto simp: np_argmax_def)
  with vs items show ?case by (simp add: best_opponent_def)
qed

lemma strategies_after_rows:
  assumes "pairwise_rows pm autos autos ps = Inr rows"
  shows "\<exists>items. period_strategies pm autos autos = Inr items"
proof (cases "autos = []")
  case True
  then show ?thesis by simp
next
  case False
  from pairwise_rows_entries[OF assms] False show ?thesis
    by (intro period_strategies_total) auto
qed

lemma rd_period_step_eq:
  "rd_period_step autos pm (rd_view s) = map_sum id rd_view (period_step autos pm t s)"
proof (cases "pairwise_rows pm autos autos (probabilities s)")
  case (Inl e)
  then show ?thesis by (simp add: rd_period_step_def period_step_def rd_view_def)
next
  case (Inr rows)
  from strategies_after_rows[OF Inr] obtain items where
    "period_strategies pm autos autos = Inr items" by auto
  with Inr show ?thesis
    by (simp add: rd_period_step_def period_step_def rd_view_def split: sum.splits)
qed

lemma rd_run_periods_eq:
  "rd_run_periods autos pm k (rd_view s) = map_sum id rd_view (run_periods autos pm k t s)"
proof (induction k arbitrary: t s)
  case 0
  then show ?case by simp
next
  case (Suc k)
  show ?case
  proof (cases "period_step autos pm t s")
    case (Inl e)
    then show ?thesis using rd_period_step_eq[of autos pm s t] by simp
  next
    case (Inr s1)
    then show ?thesis using rd_period_step_eq[of autos pm s t] Suc.IH[of s1 "Suc t"] by simp
  qed
qed

lemma rd_simulate_eq:
  "rd_simulate_replication_dynamics autos (chosen_matrix d pm) n =
   map_sum id (\<lambda>(h, ph, sh, pms, pw). (h, ph)) (simulate_replication_dynamics autos d n pm)"
proof -
  let ?m = "chosen_matrix d pm"
  have v: "rd_view (initial_state autos) =
     (replicate (length autos) (1 / as_float (length autos)),
      [replicate (length autos) (1 / as_float (length autos))], Map.empty)"
    by (simp add: rd_view_def initial_state_def Let_def)
  have e: "rd_run_periods autos ?m (nat n)
     (replicate (length autos) (1 / as_float (length autos)),
      [replicate (length autos) (1 / as_float (length autos))], Map.empty)
     = map_sum id rd_view (run_periods autos ?m (nat n) 0 (initial_state autos))"
    using rd_run_periods_eq[of autos ?m "nat n" "initial_state autos" 0] by (simp only: v)
  show ?thesis
    by (cases "run_periods autos ?m (nat n) 0 (initial_state autos)")
       (simp_all add: rd_simulate_replication_dynamics_def simulate_replication_dynamics_def
          Let_def e rd_view_def)
qed

subsection \<open>The whole run\<close>

lemma distinct_automatons: "distinct automatons"
  by (simp add: automatons_def)

lemma complete_default: "complete_matrix automatons default_payoff_matrix"
  by (simp add: complete_matrix_def automatons_def has_entry_def default_payoff_matrix_def)

lemma simulate_nonpositive:
  assumes "num_periods \<le> 0"
  shows "simulate_replication_dynamics autos d num_periods pm =
           Inr ([replicate (length autos) (1 / as_float (length autos))], Map.empty, [], [], [])"
  using assms by (simp add: simulate_replication_dynamics_def initial_state_def Let_def)

lemma simulate_valid:
  fixes d :: "real payoff_table"
  assumes "complete_matrix autos (chosen_matrix d pm)" "autos \<noteq> []" "distinct autos"
  shows "\<exists>s. run_outcome autos d pm n s"
proof -
  let ?m = "chosen_matrix d pm"
  from run_periods_valid[OF run_inv_initial[OF assms(2)] assms, of "nat n" 0] obtain s where
    s: "run_periods autos ?m (nat n) 0 (initial_state autos) = Inr s" "run_inv autos ?m s"
    by auto
  from run_periods_history[OF s(1)] obtain ext where
    ext: "history s = history (initial_state autos) @ ext" "length ext = nat n" by auto
  have h0: "history (initial_state autos) = [replicate (length autos) (1 / real (length autos))]"
    by (simp add: initial_state_def Let_def as_float_of_nat)
  have sim: "simulate_replication_dynamics autos d n pm =
             Inr (history s, payoff_history s, strategy_history s, payoff_matrices s,
                  pairwise_payoffs_history s)"
    by (simp add: simulate_replication_dynamics_def s(1))
  have strat: "strategy_history s = (case period_strategies ?m autos autos of
               Inr items \<Rightarrow> replicate (nat n) items | Inl e \<Rightarrow> [])"
  proof (cases "nat n")
    case 0
    with s(1) show ?thesis by (auto simp: initial_state_def Let_def split: sum.splits)
  next
    case (Suc k)
    then have "0 < nat n" by simp
    from run_periods_strategies[OF s(1) this] show ?thesis
      by (auto simp: initial_state_def Let_def)
  qed
  from s(2) ext h0 sim strat show ?thesis
    using rd_simulate_eq[of autos d pm n] by (intro exI[of _ s]) (simp add: run_outcome_def)
qed


subsection \<open>Concrete inputs\<close>


lemma default_valid:
  "complete_matrix automatons (chosen_matrix default_payoff_matrix None)"
  "automatons \<noteq> []" "distinct automatons"
  by (simp_all add: chosen_matrix_def complete_default distinct_automatons) (simp add: automatons_def)






lemma default_strategies:
  "period_strategies default_payoff_matrix automatons automatons =
     Inr [(''DOVE'', ''DOVE''), (''HAWK'', ''DOVE''), (''GRIM'', ''DOVE''),
          (''TIT-FOR-TAT'', ''DOVE''), (''TAT-FOR-TIT'', ''TAT-FOR-TIT''),
          (''TWEEDLEDUM'', ''DOVE''), (''TWEEDLEDEE'', ''DOVE''), (''TWEETYPIE'', ''HAWK'')]"
  by (simp add: automatons_def default_payoff_matrix_def best_opponent_def getitem2_def
      np_argmax_def)

subsection \<open>The dominance scenario in exact arithmetic\<close>





subsection \<open>A missing entry\<close>

lemma pairwise_row_error:
  "length bs \<le> length ps \<Longrightarrow> pairwise_row pm a bs ps = Inl e \<Longrightarrow> \<exists>k. e = KeyError k"
proof (induction bs arbitrary: ps)
  case Nil
  then show ?case by simp
next
  case (Cons b bs)
  then obtain p ps' where ps: "ps = p # ps'" by (cases ps) auto
  show ?case
  proof (cases "has_entry pm a b")
    case True
    with Cons ps getitem2_has_entry[OF True] show ?thesis
      by (auto split: sum.splits)
  next
    case False
    from not_has_entry_getitem2[OF this] Cons.prems(2) show ?thesis by auto
  qed
qed

lemma pairwise_rows_error:
  "length bs \<le> length ps \<Longrightarrow> pairwise_rows pm as bs ps = Inl e \<Longrightarrow> \<exists>k. e = KeyError k"
proof (induction as)
  case Nil
  then show ?case by simp
next
  case (Cons a as)
  then show ?case
    by (auto split: sum.splits dest: pairwise_row_error)
qed

lemma pairwise_rows_missing:
  assumes "\<not> complete_matrix autos pm" "length autos \<le> length ps"
  shows "\<exists>k. pairwise_rows pm autos autos ps = Inl (KeyError k)"
proof (cases "pairwise_rows pm autos autos ps")
  case (Inl e)
  with pairwise_rows_error[OF assms(2) Inl] show ?thesis by auto
next
  case (Inr rows)
  from pairwise_rows_entries[OF Inr] assms(1) show ?thesis
    by (simp add: complete_matrix_def)
qed

lemma first_period_missing:
  assumes "\<not> complete_matrix autos pm" "0 < k"
  shows "\<exists>key. run_periods autos pm k 0 (initial_state autos) = Inl (KeyError key)"
proof -
  from assms(2) obtain j where k: "k = Suc j" by (cases k) auto
  have "length autos \<le> length (probabilities (initial_state autos))"
    by (simp add: initial_state_def Let_def)
  from pairwise_rows_missing[OF assms(1) this] obtain key where
    "pairwise_rows pm autos autos (probabilities (initial_state autos)) = Inl (KeyError key)"
    by auto
  then have "period_step autos pm 0 (initial_state autos) = Inl (KeyError key)"
    by (simp add: period_step_def)
  then show ?thesis by (simp add: k)
qed

subsection \<open>The share vectors of a run\<close>




subsection \<open>Evaluating a run in float64\<close>



lemmas float64_eval = round_float64_def ilog2_def round_half_even_def pow2_def bit_length.simps
  Let_def min_def zero_float64_def one_float64_def plus_float64_def minus_float64_def
  times_float64_def divide_float64_def less_eq_float64_def less_float64_def


text \<open>
  Two familiar roundings, as a check of the arithmetic: \<^verbatim>\<open>0.1 + 0.2\<close> is
  \<^verbatim>\<open>0.30000000000000004\<close>, and \<^verbatim>\<open>1.0 / 3.0\<close> is \<^verbatim>\<open>0.3333333333333333\<close> (each number given by
  its exact value).
\<close>

lemma float64_known_values:
  "Float64 (3602879701896397 / 36028797018963968) + Float64 (3602879701896397 / 18014398509481984)
     = Float64 (1351079888211149 / 4503599627370496)"
  "1 / (1 + 1 + 1) = Float64 (6004799503160661 / 18014398509481984)"
  by (simp_all add: float64_eval)









section \<open>The claims\<close>

subsection \<open>C1\<close>



subsection \<open>C2\<close>



subsection \<open>C3\<close>



subsection \<open>C4\<close>

text \<open>
  Claim C4. On valid input both variants return, and the first vector of the returned
  history is the uniform vector: \<open>K\<close> entries, each \<open>1 / K\<close>, for the \<open>K\<close> strategies. The
  module's strategy list has \<open>K = 8\<close>. (Lemma \<open>simulate_nonpositive\<close> gives the same first
  vector, as \<open>1 / as_float K\<close>, in every number type.)
\<close>

theorem initial_vector_uniform:
  fixes d :: "real payoff_table"
  assumes "complete_matrix autos (chosen_matrix d pm)" "autos \<noteq> []" "distinct autos"
  shows "\<exists>h ph sh pms pw.
           simulate_replication_dynamics autos d num_periods pm = Inr (h, ph, sh, pms, pw) \<and>
           rd_simulate_replication_dynamics autos (chosen_matrix d pm) num_periods = Inr (h, ph) \<and>
           h ! 0 = replicate (length autos) (1 / real (length autos)) \<and>
           length automatons = 8"
proof -
  from simulate_valid[OF assms, of num_periods] obtain s where
    "run_outcome autos d pm num_periods s" by blast
  then have
    "history s ! 0 = replicate (length autos) (1 / real (length autos))"
    "simulate_replication_dynamics autos d num_periods pm =
             Inr (history s, payoff_history s, strategy_history s, payoff_matrices s,
                  pairwise_payoffs_history s)"
    "rd_simulate_replication_dynamics autos (chosen_matrix d pm) num_periods =
             Inr (history s, payoff_history s)"
    by (simp_all add: run_outcome_def)
  then show ?thesis by (simp add: automatons_def)
qed

theorem initial_vector_uniform_witness:
  "\<exists>h ph sh pms pw.
     simulate_replication_dynamics automatons default_payoff_matrix 100 None = Inr (h, ph, sh, pms, pw) \<and>
     rd_simulate_replication_dynamics automatons default_payoff_matrix 100 = Inr (h, ph) \<and>
     h ! 0 = [1/8, 1/8, 1/8, 1/8, 1/8, 1/8, 1/8, 1/8]"
  using initial_vector_uniform[OF default_valid, of 100]
  by (simp add: chosen_matrix_def) (simp add: automatons_def eval_nat_numeral)

subsection \<open>C5\<close>

text \<open>
  Claim C5. For a complete payoff matrix, a non-empty list of distinct strategies and
  \<^verbatim>\<open>num_periods \<ge> 1\<close>, both variants return, the history has \<^verbatim>\<open>num_periods + 1\<close> vectors,
  and the payoff history of every strategy has \<^verbatim>\<open>num_periods\<close> entries.
\<close>

theorem history_lengths:
  fixes d :: "real payoff_table"
  assumes "complete_matrix autos (chosen_matrix d pm)" "autos \<noteq> []" "distinct autos"
    and "1 \<le> num_periods"
  shows "\<exists>h ph sh pms pw.
           simulate_replication_dynamics autos d num_periods pm = Inr (h, ph, sh, pms, pw) \<and>
           rd_simulate_replication_dynamics autos (chosen_matrix d pm) num_periods = Inr (h, ph) \<and>
           int (length h) = num_periods + 1 \<and>
           (\<forall>s \<in> set autos. int (length (dd_get ph s)) = num_periods)"
proof -
  from simulate_valid[OF assms(1,2,3), of num_periods] obtain s where
    "run_outcome autos d pm num_periods s" by blast
  then have s: "run_inv autos (chosen_matrix d pm) s" "length (history s) = nat num_periods + 1"
       "simulate_replication_dynamics autos d num_periods pm =
             Inr (history s, payoff_history s, strategy_history s, payoff_matrices s,
                  pairwise_payoffs_history s)"
       "rd_simulate_replication_dynamics autos (chosen_matrix d pm) num_periods =
             Inr (history s, payoff_history s)"
    by (simp_all add: run_outcome_def)
  have "\<forall>a \<in> set autos. int (length (dd_get (payoff_history s) a)) = num_periods"
  proof
    fix a assume "a \<in> set autos"
    then obtain i where "i < length autos" "a = autos ! i" by (auto simp: in_set_conv_nth)
    with s(1,2) assms(4) show "int (length (dd_get (payoff_history s) a)) = num_periods"
      by (simp add: run_inv_def)
  qed
  with s assms(4) show ?thesis by simp
qed

theorem history_lengths_witness:
  "\<exists>h ph sh pms pw.
     simulate_replication_dynamics automatons default_payoff_matrix 100 None = Inr (h, ph, sh, pms, pw) \<and>
     rd_simulate_replication_dynamics automatons default_payoff_matrix 100 = Inr (h, ph) \<and>
     length h = 101 \<and> length (dd_get ph ''DOVE'') = 100 \<and> length (dd_get ph ''TWEETYPIE'') = 100"
proof -
  have c: "complete_matrix automatons (chosen_matrix default_payoff_matrix None)"
    by (simp add: chosen_matrix_def complete_default)
  have ne: "automatons \<noteq> []" by (simp add: automatons_def)
  have n: "(1::int) \<le> 100" by simp
  from history_lengths[OF c ne distinct_automatons n] show ?thesis
    by (simp add: chosen_matrix_def) (auto simp: automatons_def)
qed

subsection \<open>C6\<close>

text \<open>
  Claim C6. The best-response record of a period is \<open>period_strategies\<close> of the payoff
  matrix and the strategy list alone: it has no argument for the shares or the period,
  and the returned \<^verbatim>\<open>strategy_history\<close> repeats the same record \<^verbatim>\<open>num_periods\<close> times. The
  record names, for each strategy \<open>a\<close> in order, an opponent \<open>b\<close> whose entry
  \<^verbatim>\<open>payoff_matrix[a][b]\<close> is maximal in the row of \<open>a\<close>.
\<close>

theorem best_response_static:
  fixes d :: "real payoff_table"
  assumes "complete_matrix autos (chosen_matrix d pm)" "autos \<noteq> []" "distinct autos"
    and "1 \<le> num_periods"
  shows "\<exists>h ph sh pms pw items.
           simulate_replication_dynamics autos d num_periods pm = Inr (h, ph, sh, pms, pw) \<and>
           period_strategies (chosen_matrix d pm) autos autos = Inr items \<and>
           sh = replicate (nat num_periods) items \<and>
           map fst items = autos \<and>
           (\<forall>(a, b) \<in> set items. b \<in> set autos \<and>
              (\<forall>c \<in> set autos. entry (chosen_matrix d pm) a c \<le> entry (chosen_matrix d pm) a b))"
proof -
  let ?m = "chosen_matrix d pm"
  from simulate_valid[OF assms(1,2,3), of num_periods] obtain s where
    "run_outcome autos d pm num_periods s" by blast
  then have s: "strategy_history s =
       (case period_strategies ?m autos autos of
          Inr items \<Rightarrow> replicate (nat num_periods) items | Inl e \<Rightarrow> [])"
       "simulate_replication_dynamics autos d num_periods pm =
             Inr (history s, payoff_history s, strategy_history s, payoff_matrices s,
                  pairwise_payoffs_history s)"
    by (simp_all add: run_outcome_def)
  from period_strategies_correct[of autos autos ?m] assms(1,2) obtain items where
    items: "period_strategies ?m autos autos = Inr items" "map fst items = autos"
      "\<forall>(a, b) \<in> set items. b \<in> set autos \<and> (\<forall>c \<in> set autos. entry ?m a c \<le> entry ?m a b)"
    by (auto dest: complete_matrixD)
  with s show ?thesis by simp
qed

theorem best_response_static_witness:
  "\<exists>h ph sh pms pw.
     simulate_replication_dynamics automatons default_payoff_matrix 3 None = Inr (h, ph, sh, pms, pw) \<and>
     sh = [[(''DOVE'', ''DOVE''), (''HAWK'', ''DOVE''), (''GRIM'', ''DOVE''),
            (''TIT-FOR-TAT'', ''DOVE''), (''TAT-FOR-TIT'', ''TAT-FOR-TIT''),
            (''TWEEDLEDUM'', ''DOVE''), (''TWEEDLEDEE'', ''DOVE''), (''TWEETYPIE'', ''HAWK'')],
           [(''DOVE'', ''DOVE''), (''HAWK'', ''DOVE''), (''GRIM'', ''DOVE''),
            (''TIT-FOR-TAT'', ''DOVE''), (''TAT-FOR-TIT'', ''TAT-FOR-TIT''),
            (''TWEEDLEDUM'', ''DOVE''), (''TWEEDLEDEE'', ''DOVE''), (''TWEETYPIE'', ''HAWK'')],
           [(''DOVE'', ''DOVE''), (''HAWK'', ''DOVE''), (''GRIM'', ''DOVE''),
            (''TIT-FOR-TAT'', ''DOVE''), (''TAT-FOR-TIT'', ''TAT-FOR-TIT''),
            (''TWEEDLEDUM'', ''DOVE''), (''TWEEDLEDEE'', ''DOVE''), (''TWEETYPIE'', ''HAWK'')]]"
proof -
  have n: "(1::int) \<le> 3" by simp
  from best_response_static[OF default_valid n] show ?thesis
    by (auto simp: chosen_matrix_def default_strategies eval_nat_numeral)
qed

subsection \<open>C7\<close>




subsection \<open>C8\<close>

text \<open>
  Claim C8, as stated: a \<^verbatim>\<open>num_periods\<close> that is not positive makes the run fail with
  \<^verbatim>\<open>InvalidPeriodCount\<close>, unless a tolerated zero is documented. The source has no check
  of \<^verbatim>\<open>num_periods\<close> and documents no such choice, and a negative count, which the
  exception for zero does not cover, returns normally as well:
\<close>

theorem negative_periods_not_rejected_counterexample:
  "simulate_replication_dynamics automatons default_payoff_matrix (- 1) None =
     Inr ([[1/8, 1/8, 1/8, 1/8, 1/8, 1/8, 1/8, 1/8]], Map.empty, [], [], []) \<and>
   rd_simulate_replication_dynamics automatons default_payoff_matrix (- 1) =
     Inr ([[1/8, 1/8, 1/8, 1/8, 1/8, 1/8, 1/8, 1/8]], Map.empty)"
  by (simp add: simulate_replication_dynamics_def rd_simulate_replication_dynamics_def
      initial_state_def Let_def automatons_def as_float_of_nat)

text \<open>
  Claim C8, amended. A \<^verbatim>\<open>num_periods\<close> that is zero or negative is not rejected: both
  variants return normally, with a history of exactly one vector.
\<close>

theorem nonpositive_periods_never_fail:
  assumes "num_periods \<le> 0"
  shows "(\<exists>h ph sh pms pw. simulate_replication_dynamics autos d num_periods pm =
             Inr (h, ph, sh, pms, pw) \<and> length h = 1) \<and>
         (\<exists>h ph. rd_simulate_replication_dynamics autos m num_periods = Inr (h, ph) \<and>
             length h = 1)"
  using assms
  by (simp add: simulate_replication_dynamics_def rd_simulate_replication_dynamics_def
      initial_state_def Let_def)

theorem nonpositive_periods_never_fail_witness:
  "(- 1 :: int) \<le> 0 \<and>
   \<not> isl (simulate_replication_dynamics automatons default_payoff_matrix (- 1) None) \<and>
   \<not> isl (rd_simulate_replication_dynamics automatons default_payoff_matrix (- 1))"
  using nonpositive_periods_never_fail[of "- 1" automatons default_payoff_matrix None default_payoff_matrix]
  by auto

subsection \<open>C9\<close>

text \<open>
  Claim C9, as stated: a payoff matrix that lacks an entry for a required pair makes
  the run fail with \<^verbatim>\<open>MissingPayoffEntry\<close> before any computation starts. The source has
  no such check. With \<^verbatim>\<open>num_periods = 0\<close> the matrix is never read and the run returns
  normally, here for a matrix without the entry \<open>(B, B)\<close>:
\<close>

theorem missing_entry_not_rejected_counterexample:
  "\<not> complete_matrix scenario_strategies
       (map_of [(''A'', map_of [(''A'', 3), (''B'', 3)]), (''B'', map_of [(''A'', 0 :: real)])]) \<and>
   simulate_replication_dynamics scenario_strategies default_payoff_matrix 0
       (Some (map_of [(''A'', map_of [(''A'', 3), (''B'', 3)]), (''B'', map_of [(''A'', 0)])])) =
     Inr ([[1/2, 1/2]], Map.empty, [], [], [])"
  by (simp add: complete_matrix_def scenario_strategies_def has_entry_def
      simulate_replication_dynamics_def initial_state_def Let_def)

text \<open>
  Claim C9, amended. If the payoff matrix lacks an entry for some ordered pair of
  strategies and \<^verbatim>\<open>num_periods \<ge> 1\<close>, the run ends with the \<^verbatim>\<open>KeyError\<close> of the dictionary
  lookup, raised in the payoff loop of the first period, and returns nothing. This holds
  in both variants and in every number type.
\<close>

theorem missing_entry_key_error:
  assumes "\<not> complete_matrix autos (chosen_matrix d pm)" "1 \<le> num_periods"
  shows "\<exists>key. simulate_replication_dynamics autos d num_periods pm = Inl (KeyError key) \<and>
               rd_simulate_replication_dynamics autos (chosen_matrix d pm) num_periods =
                 Inl (KeyError key)"
proof -
  from assms(2) have "0 < nat num_periods" by simp
  from first_period_missing[OF assms(1) this] obtain key where
    "run_periods autos (chosen_matrix d pm) (nat num_periods) 0 (initial_state autos) =
       Inl (KeyError key)" by auto
  then have "simulate_replication_dynamics autos d num_periods pm = Inl (KeyError key)"
    by (simp add: simulate_replication_dynamics_def)
  with rd_simulate_eq[of autos d pm num_periods] show ?thesis by simp
qed

theorem missing_entry_key_error_witness:
  "\<not> complete_matrix scenario_strategies (chosen_matrix default_payoff_matrix
       (Some (map_of [(''A'', map_of [(''A'', 3), (''B'', 3)]), (''B'', map_of [(''A'', 0)])]))) \<and>
   (1::int) \<le> 5 \<and>
   simulate_replication_dynamics scenario_strategies default_payoff_matrix 5
       (Some (map_of [(''A'', map_of [(''A'', 3), (''B'', 3)]), (''B'', map_of [(''A'', 0)])])) =
     Inl (KeyError ''B'')"
proof -
  let ?m = "map_of [(''A'', map_of [(''A'', 3), (''B'', 3)]), (''B'', map_of [(''A'', 0 :: real)])]"
  have inc: "\<not> complete_matrix scenario_strategies (chosen_matrix default_payoff_matrix (Some ?m))"
    by (simp add: complete_matrix_def scenario_strategies_def has_entry_def chosen_matrix_def)
  have n: "(1::int) \<le> 5" by simp
  from missing_entry_key_error[OF inc n] obtain key where
    k: "simulate_replication_dynamics scenario_strategies default_payoff_matrix 5 (Some ?m)
        = Inl (KeyError key)" by auto
  have "simulate_replication_dynamics scenario_strategies default_payoff_matrix 5 (Some ?m)
        = Inl (KeyError ''B'')"
    by (simp add: simulate_replication_dynamics_def chosen_matrix_def eval_nat_numeral
        scenario_strategies_def initial_state_def Let_def period_step_def getitem2_def)
  with k inc show ?thesis by simp
qed

subsection \<open>C10\<close>

text \<open>
  Claim C10. For \<^verbatim>\<open>num_periods = 0\<close> and for any negative \<^verbatim>\<open>num_periods\<close>, both variants of
  \<^verbatim>\<open>simulate_replication_dynamics\<close> raise nothing and return a history that holds the
  uniform initial vector only, with an empty payoff history; \<^verbatim>\<open>streamlit_app.py\<close>'s three
  diagnostic lists are empty too. No loop body runs, so the payoff matrix is never read:
  the statement holds for every strategy list, every matrix and every number type.
\<close>

theorem nonpositive_periods_return_initial_state:
  assumes "num_periods \<le> 0"
  shows "simulate_replication_dynamics autos d num_periods pm =
           Inr ([replicate (length autos) (1 / as_float (length autos))], Map.empty, [], [], []) \<and>
         rd_simulate_replication_dynamics autos m num_periods =
           Inr ([replicate (length autos) (1 / as_float (length autos))], Map.empty)"
  using assms
  by (simp add: simulate_replication_dynamics_def rd_simulate_replication_dynamics_def
      initial_state_def Let_def)

theorem nonpositive_periods_return_initial_state_witness:
  "(- 3 :: int) \<le> 0 \<and>
   simulate_replication_dynamics automatons default_payoff_matrix (- 3) None =
     Inr ([[1/8, 1/8, 1/8, 1/8, 1/8, 1/8, 1/8, 1/8]], Map.empty, [], [], []) \<and>
   rd_simulate_replication_dynamics automatons default_payoff_matrix (- 3) =
     Inr ([[1/8, 1/8, 1/8, 1/8, 1/8, 1/8, 1/8, 1/8]], Map.empty) \<and>
   simulate_replication_dynamics automatons default_payoff_matrix 0 None =
     Inr ([[1/8, 1/8, 1/8, 1/8, 1/8, 1/8, 1/8, 1/8]], Map.empty, [], [], [])"
  using nonpositive_periods_return_initial_state[of "- 3" automatons default_payoff_matrix None default_payoff_matrix]
    nonpositive_periods_return_initial_state[of 0 automatons default_payoff_matrix None default_payoff_matrix]
  by (simp add: automatons_def as_float_of_nat eval_nat_numeral)

end
